theory Spec2Isabelle
  imports Main "HOL-Library.Word"
begin

unbundle bit_operations_syntax

section \<open>Dynamic values and the store they point into\<close>

text \<open>
  The library wraps one Go \<^verbatim>\<open>interface{}\<close> value. Maps and slices are reference
  types in Go: a value of type \<^verbatim>\<open>map[string]interface{}\<close> is a pointer to a table
  (possibly the nil pointer), and a slice is a window (offset, length) onto a backing
  array. The setters write through such references, so the contents of maps and arrays
  live in an explicit store and a value only names the place.

  \<^item> \<open>VNil\<close> is the nil interface, \<open>VBool\<close>, \<open>VInt\<close>, \<open>VFloat64\<close>, \<open>VString\<close> are the
    scalars (a float64 is kept as its 64 IEEE bits; an \<^verbatim>\<open>int\<close> is never computed
    with, only compared with 0 and a length, so it is a mathematical integer);
  \<^item> \<open>VMapSI r\<close> is a \<^verbatim>\<open>map[string]interface{}\<close>, \<open>VMapII r\<close> a
    \<^verbatim>\<open>map[interface{}]interface{}\<close>; \<open>r = None\<close> is the nil map of that type;
  \<^item> \<open>VSliceI a off n\<close> is a \<^verbatim>\<open>[]interface{}\<close> of length \<open>n\<close> whose element \<open>i\<close>
    is cell \<open>off + i\<close> of array \<open>a\<close> (the capacity is left out: nothing here appends or
    reslices; a slice of length 0 stands for the nil slice as well);
  \<^item> \<open>VOther t c x\<close> is a value of any other dynamic type, named \<open>t\<close> (a
    \<^verbatim>\<open>float32\<close>, a \<^verbatim>\<open>[]string\<close>, a struct, a pointer); \<open>c\<close> tells how the value
    behaves as a map key, \<open>x\<close> tells the values of one type apart, up to \<^verbatim>\<open>==\<close>.

  As a map key, a value of another type is of one of three kinds:
  \<^item> \<open>NoHash\<close>: hashing it panics (a \<^verbatim>\<open>[]string\<close>, a func, a struct with such a
    field);
  \<^item> \<open>SelfEqual\<close>: it can be hashed and equals itself (an \<^verbatim>\<open>int64\<close>, a pointer, a
    struct of such fields);
  \<^item> \<open>NeverEqual\<close>: it can be hashed and \<^verbatim>\<open>==\<close> is false on it whatever the other side
    is: a \<^verbatim>\<open>float32\<close> or complex NaN, an array or a struct holding a NaN. (\<^verbatim>\<open>==\<close> on
    arrays and structs compares element by element, so a value that does not equal
    itself equals nothing.)
\<close>

type_synonym addr = nat

datatype key_kind = NoHash | SelfEqual | NeverEqual

datatype val =
    VNil
  | VBool bool
  | VInt int
  | VFloat64 "64 word"
  | VString string
  | VMapSI "addr option"
  | VMapII "addr option"
  | VSliceI addr nat nat
  | VOther string key_kind nat

text \<open>
  The store: one table per \<^verbatim>\<open>map[string]interface{}\<close> address, one per
  \<^verbatim>\<open>map[interface{}]interface{}\<close> address, and the cells of every backing array.
  A \<^verbatim>\<open>map[interface{}]interface{}\<close> is a list of entries because Go's key equality
  is not reflexive (a NaN key can be stored, never found, and stored again).
\<close>

record heap =
  mapsSI :: "addr \<Rightarrow> string \<Rightarrow> val option"
  mapsII :: "addr \<Rightarrow> (val \<times> val) list"
  arrays :: "addr \<Rightarrow> nat \<Rightarrow> val"

subsection \<open>Go's equality and hashing of interface values\<close>

definition isNaN :: "64 word \<Rightarrow> bool" where
  "isNaN w \<longleftrightarrow>
     w AND 0x7FF0000000000000 = 0x7FF0000000000000 \<and> w AND 0x000FFFFFFFFFFFFF \<noteq> 0"

definition float_eq :: "64 word \<Rightarrow> 64 word \<Rightarrow> bool" where
  "float_eq a b \<longleftrightarrow>
     (if isNaN a then False
      else if isNaN b then False
      else a = b \<or> (a AND 0x7FFFFFFFFFFFFFFF = 0 \<and> b AND 0x7FFFFFFFFFFFFFFF = 0))"

text \<open>\<open>go_eq\<close> is \<^verbatim>\<open>==\<close> on two interface values that can be hashed: the same dynamic
  type and equal values. A float64 is compared by IEEE equality; a value of another
  type equals the values of its type with the same \<open>x\<close> when it is \<open>SelfEqual\<close>, and
  nothing when it is \<open>NeverEqual\<close>.\<close>

definition go_eq :: "val \<Rightarrow> val \<Rightarrow> bool" where
  "go_eq a b =
     (case a of
        VFloat64 x \<Rightarrow> (case b of VFloat64 y \<Rightarrow> float_eq x y | _ \<Rightarrow> False)
      | VOther t c x \<Rightarrow> c = SelfEqual \<and> a = b
      | _ \<Rightarrow> a = b)"

text \<open>Using a value as the key of a \<^verbatim>\<open>map[interface{}]interface{}\<close> hashes it; the
  runtime panics on a map, a slice and every other type without a hash function, also
  when the map is empty or nil.\<close>

fun hashable :: "val \<Rightarrow> bool" where
  "hashable (VMapSI r) = False"
| "hashable (VMapII r) = False"
| "hashable (VSliceI a off n) = False"
| "hashable (VOther t c x) = (c \<noteq> NoHash)"
| "hashable v = True"

text \<open>The dynamic type, as the verb \<^verbatim>\<open>%T\<close> prints it.\<close>

fun type_of :: "val \<Rightarrow> string" where
  "type_of VNil = ''<nil>''"
| "type_of (VBool b) = ''bool''"
| "type_of (VInt i) = ''int''"
| "type_of (VFloat64 w) = ''float64''"
| "type_of (VString s) = ''string''"
| "type_of (VMapSI r) = ''map[string]interface {}''"
| "type_of (VMapII r) = ''map[interface {}]interface {}''"
| "type_of (VSliceI a off n) = ''[]interface {}''"
| "type_of (VOther t c x) = t"

subsection \<open>Reading and writing the store\<close>

definition lookupSI :: "heap \<Rightarrow> addr option \<Rightarrow> string \<Rightarrow> val option" where
  "lookupSI h r key = (case r of None \<Rightarrow> None | Some a \<Rightarrow> mapsSI h a key)"

fun entry_lookup :: "(val \<times> val) list \<Rightarrow> val \<Rightarrow> val option" where
  "entry_lookup [] p = None"
| "entry_lookup ((k, v) # es) p = (if go_eq k p then Some v else entry_lookup es p)"

definition lookupII :: "heap \<Rightarrow> addr option \<Rightarrow> val \<Rightarrow> val option" where
  "lookupII h r p = (case r of None \<Rightarrow> None | Some a \<Rightarrow> entry_lookup (mapsII h a) p)"

fun entry_assign :: "(val \<times> val) list \<Rightarrow> val \<Rightarrow> val \<Rightarrow> (val \<times> val) list" where
  "entry_assign [] k v = [(k, v)]"
| "entry_assign ((k', v') # es) k v =
     (if go_eq k' k then (k, v) # es else (k', v') # entry_assign es k v)"

definition assignSI :: "heap \<Rightarrow> addr \<Rightarrow> string \<Rightarrow> val \<Rightarrow> heap" where
  "assignSI h a key v = h\<lparr>mapsSI := (mapsSI h)(a := (mapsSI h a)(key \<mapsto> v))\<rparr>"

definition assignII :: "heap \<Rightarrow> addr \<Rightarrow> val \<Rightarrow> val \<Rightarrow> heap" where
  "assignII h a k v = h\<lparr>mapsII := (mapsII h)(a := entry_assign (mapsII h a) k v)\<rparr>"

definition assignArr :: "heap \<Rightarrow> addr \<Rightarrow> nat \<Rightarrow> val \<Rightarrow> heap" where
  "assignArr h a c v = h\<lparr>arrays := (arrays h)(a := (arrays h a)(c := v))\<rparr>"

section \<open>Errors and outcomes\<close>

text \<open>
  Every error of the library is \<^verbatim>\<open>fmt.Errorf\<close> of one of nine format strings; an
  error value is modelled by the format it was built from and the arguments it was given
  (not by the text \<^verbatim>\<open>fmt\<close> prints for them):
  \<^item> \<open>EmptyData\<close>: \<^verbatim>\<open>errorEmptyData\<close>, no argument;
  \<^item> \<open>ExpectedKey p t pre\<close>: \<^verbatim>\<open>errorExpectedKey\<close> with \<^verbatim>\<open>p, p, path[:i+1]\<close>
    (verbs \<^verbatim>\<open>%+v\<close>, \<^verbatim>\<open>%T\<close>, \<^verbatim>\<open>%v\<close>; \<open>t\<close> is what \<^verbatim>\<open>%T\<close> prints);
  \<^item> \<open>KeyNotFound k pre\<close>: \<^verbatim>\<open>errorKeyNotFound\<close>;
  \<^item> \<open>ExpectedIndex p t pre\<close>: \<^verbatim>\<open>errorExpectedIndex\<close>;
  \<^item> \<open>IndexOutOfRange i pre\<close>: \<^verbatim>\<open>errorIndexOutOfRange\<close>;
  \<^item> \<open>UnexpectedType pre\<close>: \<^verbatim>\<open>errorUnexpectedType\<close>;
  \<^item> \<open>NotMapSI path\<close>, \<open>NotMapII path\<close>, \<open>NotSliceI path\<close>: \<^verbatim>\<open>errorNotMapSI\<close>,
    \<^verbatim>\<open>errorNotMapII\<close>, \<^verbatim>\<open>errorNotSliceI\<close>.
\<close>

datatype error =
    EmptyData
  | ExpectedKey val string "val list"
  | KeyNotFound val "val list"
  | ExpectedIndex val string "val list"
  | IndexOutOfRange int "val list"
  | UnexpectedType "val list"
  | NotMapSI "val list"
  | NotMapII "val list"
  | NotSliceI "val list"

text \<open>A call returns a result with a nil error (\<open>Ok\<close>), returns an error (\<open>Err\<close>), or
  panics.\<close>

datatype 'a outcome = Panic | Err error | Ok 'a

section \<open>The wrapper\<close>

text \<open>\<^verbatim>\<open>type DMap struct { data interface{} }\<close>. No method assigns the field, so a
  (non-nil) \<^verbatim>\<open>*DMap\<close> is modelled by the struct it points to.\<close>

record DMap =
  data :: val

definition Init :: "val \<Rightarrow> DMap" where
  "Init v = \<lparr>data = v\<rparr>"

definition Data :: "DMap \<Rightarrow> val" where
  "Data d = data d"

definition HasData :: "DMap \<Rightarrow> bool" where
  "HasData d \<longleftrightarrow> data d \<noteq> VNil"

subsection \<open>Get\<close>

text \<open>One iteration of the loop of \<^verbatim>\<open>Get\<close>: \<open>pre\<close> is \<^verbatim>\<open>path[:i+1]\<close>, \<open>cur\<close> is
  \<^verbatim>\<open>currentData\<close> and \<open>p\<close> the segment. \<open>Ok v\<close> is the next \<^verbatim>\<open>currentData\<close>.\<close>

definition Get_step :: "heap \<Rightarrow> val list \<Rightarrow> val \<Rightarrow> val \<Rightarrow> val outcome" where
  "Get_step h pre cur p =
     (case cur of
        VMapSI r \<Rightarrow>
          (case p of
             VString key \<Rightarrow>
               (case lookupSI h r key of
                  None \<Rightarrow> Err (KeyNotFound (VString key) pre)
                | Some v \<Rightarrow> Ok v)
           | _ \<Rightarrow> Err (ExpectedKey p (type_of p) pre))
      | VMapII r \<Rightarrow>
          (if hashable p then
             (case lookupII h r p of
                None \<Rightarrow> Err (KeyNotFound p pre)
              | Some v \<Rightarrow> Ok v)
           else Panic)
      | VSliceI a off n \<Rightarrow>
          (case p of
             VInt index \<Rightarrow>
               (if index < 0 \<or> index \<ge> int n then Err (IndexOutOfRange index pre)
                else Ok (arrays h a (off + nat index)))
           | _ \<Rightarrow> Err (ExpectedIndex p (type_of p) pre))
      | _ \<Rightarrow> Err (UnexpectedType pre))"

text \<open>The loop \<^verbatim>\<open>for i, p := range path\<close>, from index \<open>i\<close> with the segments \<open>ps\<close>
  still to come.\<close>

fun Get_loop :: "heap \<Rightarrow> val list \<Rightarrow> nat \<Rightarrow> val \<Rightarrow> val list \<Rightarrow> val outcome" where
  "Get_loop h path i cur [] = Ok cur"
| "Get_loop h path i cur (p # ps) =
     (case Get_step h (take (i + 1) path) cur p of
        Panic \<Rightarrow> Panic
      | Err e \<Rightarrow> Err e
      | Ok v \<Rightarrow> Get_loop h path (i + 1) v ps)"

definition Get :: "heap \<Rightarrow> DMap \<Rightarrow> val list \<Rightarrow> DMap outcome" where
  "Get h d path =
     (if \<not> HasData d \<and> length path \<noteq> 0 then Err EmptyData
      else case Get_loop h path 0 (Data d) path of
             Panic \<Rightarrow> Panic
           | Err e \<Rightarrow> Err e
           | Ok v \<Rightarrow> Ok \<lparr>data = v\<rparr>)"

definition Exists :: "heap \<Rightarrow> DMap \<Rightarrow> val list \<Rightarrow> bool outcome" where
  "Exists h d path =
     (case Get h d path of Panic \<Rightarrow> Panic | Err e \<Rightarrow> Ok False | Ok n \<Rightarrow> Ok True)"

subsection \<open>Typed getters\<close>

text \<open>The getters return the container itself: the map reference, or the slice header
  (array, offset, length).\<close>

definition GetMapSI :: "heap \<Rightarrow> DMap \<Rightarrow> val list \<Rightarrow> addr option outcome" where
  "GetMapSI h d path =
     (case Get h d path of
        Panic \<Rightarrow> Panic
      | Err e \<Rightarrow> Err e
      | Ok n \<Rightarrow> (case Data n of VMapSI r \<Rightarrow> Ok r | _ \<Rightarrow> Err (NotMapSI path)))"

definition GetMapII :: "heap \<Rightarrow> DMap \<Rightarrow> val list \<Rightarrow> addr option outcome" where
  "GetMapII h d path =
     (case Get h d path of
        Panic \<Rightarrow> Panic
      | Err e \<Rightarrow> Err e
      | Ok n \<Rightarrow> (case Data n of VMapII r \<Rightarrow> Ok r | _ \<Rightarrow> Err (NotMapII path)))"

definition GetSliceI :: "heap \<Rightarrow> DMap \<Rightarrow> val list \<Rightarrow> (addr \<times> nat \<times> nat) outcome" where
  "GetSliceI h d path =
     (case Get h d path of
        Panic \<Rightarrow> Panic
      | Err e \<Rightarrow> Err e
      | Ok n \<Rightarrow> (case Data n of VSliceI a off len \<Rightarrow> Ok (a, off, len) | _ \<Rightarrow> Err (NotSliceI path)))"

subsection \<open>Typed setters\<close>

text \<open>A setter returns its error (\<open>Ok ()\<close> is the nil error) and the store it leaves.
  Assigning to an entry of a nil map panics, and so does assigning under a key that
  cannot be hashed.\<close>

definition SetMapSI :: "heap \<Rightarrow> DMap \<Rightarrow> val \<Rightarrow> string \<Rightarrow> val list \<Rightarrow> unit outcome \<times> heap" where
  "SetMapSI h d v key path =
     (case GetMapSI h d path of
        Panic \<Rightarrow> (Panic, h)
      | Err e \<Rightarrow> (Err e, h)
      | Ok parent \<Rightarrow>
          (case parent of
             None \<Rightarrow> (Panic, h)
           | Some a \<Rightarrow> (Ok (), assignSI h a key v)))"

definition SetMapII :: "heap \<Rightarrow> DMap \<Rightarrow> val \<Rightarrow> val \<Rightarrow> val list \<Rightarrow> unit outcome \<times> heap" where
  "SetMapII h d v key path =
     (case GetMapII h d path of
        Panic \<Rightarrow> (Panic, h)
      | Err e \<Rightarrow> (Err e, h)
      | Ok parent \<Rightarrow>
          (case parent of
             None \<Rightarrow> (Panic, h)
           | Some a \<Rightarrow>
               (if hashable key then (Ok (), assignII h a key v) else (Panic, h))))"

definition SetSliceI :: "heap \<Rightarrow> DMap \<Rightarrow> val \<Rightarrow> int \<Rightarrow> val list \<Rightarrow> unit outcome \<times> heap" where
  "SetSliceI h d v index path =
     (case GetSliceI h d path of
        Panic \<Rightarrow> (Panic, h)
      | Err e \<Rightarrow> (Err e, h)
      | Ok parent \<Rightarrow>
          (case parent of
             (a, off, len) \<Rightarrow>
               (if index < 0 \<or> index \<ge> int len then (Err (IndexOutOfRange index path), h)
                else (Ok (), assignArr h a (off + nat index) v))))"

section \<open>Notions used to state the properties\<close>

text \<open>Two calls in a row: \<open>Get\<close> with \<open>path\<close>, then \<open>Get\<close> with the single segment \<open>s\<close>
  on the node the first call returned. When the first call returns no node there is
  nothing to call the second on, and its error (or panic) is the outcome.\<close>

definition Get_then :: "heap \<Rightarrow> DMap \<Rightarrow> val list \<Rightarrow> val \<Rightarrow> DMap outcome" where
  "Get_then h d path s =
     (case Get h d path of Panic \<Rightarrow> Panic | Err e \<Rightarrow> Err e | Ok n \<Rightarrow> Get h n [s])"

text \<open>The path an error carries, if it carries one.\<close>

fun error_path :: "error \<Rightarrow> val list option" where
  "error_path EmptyData = None"
| "error_path (ExpectedKey p t pre) = Some pre"
| "error_path (KeyNotFound k pre) = Some pre"
| "error_path (ExpectedIndex p t pre) = Some pre"
| "error_path (IndexOutOfRange i pre) = Some pre"
| "error_path (UnexpectedType pre) = Some pre"
| "error_path (NotMapSI pre) = Some pre"
| "error_path (NotMapII pre) = Some pre"
| "error_path (NotSliceI pre) = Some pre"

text \<open>\<open>relocate path s e\<close> is the error that one call with \<open>path @ [s]\<close> reports where a
  call with \<open>[s]\<close> alone, made on the node at \<open>path\<close>, reports \<open>e\<close>: the carried path is
  counted from the root, and a nil value met after at least one step is an
  \<open>UnexpectedType\<close>, not an \<open>EmptyData\<close>.\<close>

fun relocate :: "val list \<Rightarrow> val \<Rightarrow> error \<Rightarrow> error" where
  "relocate path s EmptyData = (if path = [] then EmptyData else UnexpectedType (path @ [s]))"
| "relocate path s (ExpectedKey p t pre) = ExpectedKey p t (path @ pre)"
| "relocate path s (KeyNotFound k pre) = KeyNotFound k (path @ pre)"
| "relocate path s (ExpectedIndex p t pre) = ExpectedIndex p t (path @ pre)"
| "relocate path s (IndexOutOfRange i pre) = IndexOutOfRange i (path @ pre)"
| "relocate path s (UnexpectedType pre) = UnexpectedType (path @ pre)"
| "relocate path s (NotMapSI pre) = NotMapSI (path @ pre)"
| "relocate path s (NotMapII pre) = NotMapII (path @ pre)"
| "relocate path s (NotSliceI pre) = NotSliceI (path @ pre)"

text \<open>
  The places of the store: the entry of a \<^verbatim>\<open>map[string]interface{}\<close> under a key, the
  entry of a \<^verbatim>\<open>map[interface{}]interface{}\<close> under a key, a cell of a backing array.
\<close>

datatype loc = EntrySI addr string | EntryII addr val | Cell addr nat

text \<open>The place one iteration of the loop of \<open>Get\<close> reads when it finds a value there
  (\<open>None\<close> when the iteration fails before any lookup).\<close>

definition step_reads :: "val \<Rightarrow> val \<Rightarrow> loc option" where
  "step_reads cur p =
     (case cur of
        VMapSI r \<Rightarrow>
          (case r of
             None \<Rightarrow> None
           | Some a \<Rightarrow> (case p of VString key \<Rightarrow> Some (EntrySI a key) | _ \<Rightarrow> None))
      | VMapII r \<Rightarrow>
          (case r of
             None \<Rightarrow> None
           | Some a \<Rightarrow> if hashable p then Some (EntryII a p) else None)
      | VSliceI a off n \<Rightarrow>
          (case p of
             VInt index \<Rightarrow>
               if index < 0 \<or> index \<ge> int n then None else Some (Cell a (off + nat index))
           | _ \<Rightarrow> None)
      | _ \<Rightarrow> None)"

text \<open>\<open>touches w l\<close>: an assignment at \<open>w\<close> can change what a read at \<open>l\<close> finds. Keys
  of a \<^verbatim>\<open>map[interface{}]interface{}\<close> are compared with \<open>go_eq\<close>, so an entry written
  under a key that does not equal itself is touched by no read.\<close>

fun touches :: "loc \<Rightarrow> loc \<Rightarrow> bool" where
  "touches (EntrySI a key) (EntrySI a' key') = (a = a' \<and> key = key')"
| "touches (EntryII a k) (EntryII a' p) = (a = a' \<and> go_eq k p)"
| "touches (Cell a c) (Cell a' c') = (a = a' \<and> c = c')"
| "touches w l = False"

fun read_loc :: "heap \<Rightarrow> loc \<Rightarrow> val option" where
  "read_loc h (EntrySI a key) = mapsSI h a key"
| "read_loc h (EntryII a p) = entry_lookup (mapsII h a) p"
| "read_loc h (Cell a c) = Some (arrays h a c)"

fun write_loc :: "heap \<Rightarrow> loc \<Rightarrow> val \<Rightarrow> heap" where
  "write_loc h (EntrySI a key) v = assignSI h a key v"
| "write_loc h (EntryII a k) v = assignII h a k v"
| "write_loc h (Cell a c) v = assignArr h a c v"

text \<open>\<open>reads_at h d path j\<close> is the place iteration \<open>j\<close> of \<open>Get h d path\<close> reads, when
  the iterations before it succeed. \<open>avoids h d path w\<close>: resolving \<open>path\<close> from \<open>d\<close> reads
  no entry that an assignment at \<open>w\<close> changes. In a tree this holds for the path of a
  container and any entry \<open>w\<close> of that container: a container is not below itself.\<close>

definition reads_at :: "heap \<Rightarrow> DMap \<Rightarrow> val list \<Rightarrow> nat \<Rightarrow> loc option" where
  "reads_at h d path j =
     (case Get h d (take j path) of
        Panic \<Rightarrow> None
      | Err e \<Rightarrow> None
      | Ok n \<Rightarrow> step_reads (Data n) (path ! j))"

definition avoids :: "heap \<Rightarrow> DMap \<Rightarrow> val list \<Rightarrow> loc \<Rightarrow> bool" where
  "avoids h d path w \<longleftrightarrow>
     (\<forall>j < length path. case reads_at h d path j of None \<Rightarrow> True | Some l \<Rightarrow> \<not> touches w l)"


section \<open>A sample store\<close>

text \<open>The document of the README,
  \<^verbatim>\<open>{"root": {"title": "example json", "contents": ["c1", "c2", "c3"]}}\<close>,
  as the decoder lays it out: map 0 is the document, map 1 is \<^verbatim>\<open>root\<close>, array 0
  holds \<^verbatim>\<open>contents\<close>.\<close>

definition readme_heap :: heap where
  "readme_heap =
     \<lparr>mapsSI = (\<lambda>a. Map.empty)
        (0 := [''root'' \<mapsto> VMapSI (Some 1)],
         1 := [''title'' \<mapsto> VString ''example json'', ''contents'' \<mapsto> VSliceI 0 0 3]),
      mapsII = (\<lambda>a. []),
      arrays = (\<lambda>a c. VNil)
        (0 := (\<lambda>c. VNil)(0 := VString ''c1'', 1 := VString ''c2'', 2 := VString ''c3''))\<rparr>"

definition readme_doc :: DMap where
  "readme_doc = Init (VMapSI (Some 0))"

text \<open>A document with other key types, as a YAML decoder lays it out: the mapping
  \<^verbatim>\<open>{1: "one", "list": [true, 7]}\<close>.\<close>

definition yaml_heap :: heap where
  "yaml_heap =
     \<lparr>mapsSI = (\<lambda>a. Map.empty),
      mapsII = (\<lambda>a. [])(0 := [(VInt 1, VString ''one''), (VString ''list'', VSliceI 0 0 2)]),
      arrays = (\<lambda>a c. VNil)(0 := (\<lambda>c. VNil)(0 := VBool True, 1 := VInt 7))\<rparr>"

definition yaml_doc :: DMap where
  "yaml_doc = Init (VMapII (Some 0))"

text \<open>A map that contains itself under the key \<^verbatim>\<open>self\<close>
  (\<^verbatim>\<open>m := map[string]interface{}{}; m["self"] = m\<close>), a float64 NaN and a float32
  NaN.\<close>

definition loop_heap :: heap where
  "loop_heap =
     \<lparr>mapsSI = (\<lambda>a. Map.empty)(0 := [''self'' \<mapsto> VMapSI (Some 0)]),
      mapsII = (\<lambda>a. []),
      arrays = (\<lambda>a c. VNil)\<rparr>"

definition loop_doc :: DMap where
  "loop_doc = Init (VMapSI (Some 0))"

definition NaN :: val where
  "NaN = VFloat64 0x7FF8000000000001"

definition NaN32 :: val where
  "NaN32 = VOther ''float32'' NeverEqual 0"

section \<open>Evaluation and basic facts\<close>

lemmas model_defs =
  Get_def Get_step_def Exists_def GetMapSI_def GetMapII_def GetSliceI_def
  SetMapSI_def SetMapII_def SetSliceI_def HasData_def Data_def Init_def
  lookupSI_def lookupII_def go_eq_def assignSI_def assignII_def assignArr_def

lemmas sample_defs = readme_heap_def readme_doc_def yaml_heap_def yaml_doc_def
  loop_heap_def loop_doc_def

lemmas frame_defs = avoids_def reads_at_def step_reads_def All_less_Suc

subsection \<open>The loop of Get over prefixes of the path\<close>

lemma Get_loop_path_irrelevant:
  "take (i + length ps) path = take (i + length ps) path' \<Longrightarrow>
   Get_loop h path i cur ps = Get_loop h path' i cur ps"
proof (induction ps arbitrary: i cur)
  case Nil
  show ?case by simp
next
  case (Cons p ps)
  have "take (i + 1) (take (i + length (p # ps)) path) =
        take (i + 1) (take (i + length (p # ps)) path')"
    using Cons.prems by simp
  then have pre: "take (i + 1) path = take (i + 1) path'"
    by (simp add: min_def)
  have "take (i + 1 + length ps) path = take (i + 1 + length ps) path'"
    using Cons.prems by simp
  then have "\<And>v. Get_loop h path (i + 1) v ps = Get_loop h path' (i + 1) v ps"
    by (rule Cons.IH)
  with pre show ?case by (simp split: outcome.splits)
qed

lemma Get_loop_append:
  "Get_loop h path i cur (ps @ qs) =
     (case Get_loop h path i cur ps of
        Panic \<Rightarrow> Panic
      | Err e \<Rightarrow> Err e
      | Ok v \<Rightarrow> Get_loop h path (i + length ps) v qs)"
  by (induction ps arbitrary: i cur) (auto split: outcome.splits)

lemma Get_loop_prefix:
  "Get_loop h (ps @ qs) 0 cur ps = Get_loop h ps 0 cur ps"
  by (rule Get_loop_path_irrelevant) simp

lemma Get_Ok_HasData:
  "Get h d ps = Ok n \<Longrightarrow> Data n \<noteq> VNil \<Longrightarrow> HasData d"
  by (cases ps) (auto simp: Get_def HasData_def Data_def split: if_splits outcome.splits)

lemma Get_append:
  "HasData d \<Longrightarrow> Get h d (ps @ qs) =
     (case Get h d ps of
        Panic \<Rightarrow> Panic
      | Err e \<Rightarrow> Err e
      | Ok n \<Rightarrow> map_outcome Init (Get_loop h (ps @ qs) (length ps) (Data n) qs))"
  by (simp add: Get_def Get_loop_append Get_loop_prefix Data_def Init_def
      split: outcome.splits)

lemma Get_resume:
  assumes "Get h d (take i path) = Ok n" and "HasData d"
  shows "Get h d path = map_outcome Init (Get_loop h path i (Data n) (drop i path))"
proof (cases "i \<le> length path")
  case True
  have "Get h d (take i path @ drop i path) =
          map_outcome Init (Get_loop h (take i path @ drop i path) (length (take i path)) (Data n) (drop i path))"
    using assms by (simp only: Get_append outcome.case)
  then show ?thesis using True by (simp add: min_def)
next
  case False
  then show ?thesis using assms
    by (auto simp: Get_def Data_def Init_def split: outcome.splits if_splits)
qed

lemma Get_snoc:
  "HasData d \<Longrightarrow> Get h d (ps @ [p]) =
     (case Get h d ps of
        Panic \<Rightarrow> Panic
      | Err e \<Rightarrow> Err e
      | Ok n \<Rightarrow> map_outcome Init (Get_step h (ps @ [p]) (Data n) p))"
  by (simp add: Get_append split: outcome.splits)

lemma Get_single:
  "HasData n \<Longrightarrow> Get h n [s] = map_outcome Init (Get_step h [s] (Data n) s)"
  using Get_snoc [of n h "[]" s] by (simp add: Get_def Init_def Data_def)

lemma Get_resume_step:
  assumes "i < length path" and "Get h d (take i path) = Ok n" and "HasData d"
  shows "Get h d path =
           (case Get_step h (take (Suc i) path) (Data n) (path ! i) of
              Panic \<Rightarrow> Panic
            | Err e \<Rightarrow> Err e
            | Ok v \<Rightarrow> map_outcome Init (Get_loop h path (Suc i) v (drop (Suc i) path)))"
proof -
  have "drop i path = path ! i # drop (Suc i) path"
    using assms(1) by (simp add: Cons_nth_drop_Suc)
  then show ?thesis
    using Get_resume [OF assms(2,3)] by (simp split: outcome.splits)
qed

lemma Get_take_Suc:
  assumes "i < length path" and "Get h d (take i path) = Ok n" and "HasData d"
  shows "Get h d (take (Suc i) path) =
           map_outcome Init (Get_step h (take (Suc i) path) (Data n) (path ! i))"
proof -
  have "take (Suc i) path = take i path @ [path ! i]"
    using assms(1) by (simp add: take_Suc_conv_app_nth)
  then show ?thesis
    using Get_snoc [OF assms(3), of h "take i path" "path ! i"] assms(2) by simp
qed

subsection \<open>Errors and panics of one iteration\<close>

lemma Get_step_Err_path:
  "Get_step h pre cur p = Err e \<Longrightarrow> error_path e = Some pre"
  by (auto simp: Get_step_def split: val.splits option.splits if_splits)

lemma Get_step_nil: "Get_step h pre VNil p = Err (UnexpectedType pre)"
  by (simp add: Get_step_def)

lemma Get_step_relocate:
  "cur \<noteq> VNil \<Longrightarrow>
   Get_step h (path @ [s]) cur s =
     (case Get_step h [s] cur s of
        Panic \<Rightarrow> Panic | Err e \<Rightarrow> Err (relocate path s e) | Ok v \<Rightarrow> Ok v)"
  by (auto simp: Get_step_def split: val.splits option.splits)

lemma Get_loop_Err_first:
  "Get_loop h path i cur ps = Err e \<Longrightarrow>
   \<exists>j < length ps. \<exists>v. Get_loop h path i cur (take j ps) = Ok v
      \<and> Get_step h (take (i + j + 1) path) v (ps ! j) = Err e"
proof (induction ps arbitrary: i cur)
  case Nil
  then show ?case by simp
next
  case (Cons p ps)
  show ?case
  proof (cases "Get_step h (take (i + 1) path) cur p")
    case Panic
    with Cons.prems show ?thesis by simp
  next
    case (Err e')
    with Cons.prems have "e' = e" by simp
    with Err have "Get_loop h path i cur (take 0 (p # ps)) = Ok cur
        \<and> Get_step h (take (i + 0 + 1) path) cur ((p # ps) ! 0) = Err e"
      by simp
    then show ?thesis by blast
  next
    case (Ok v)
    with Cons.prems have "Get_loop h path (i + 1) v ps = Err e" by simp
    from Cons.IH [OF this] obtain j w where j: "j < length ps"
      and "Get_loop h path (i + 1) v (take j ps) = Ok w"
      and "Get_step h (take (i + 1 + j + 1) path) w (ps ! j) = Err e"
      by blast
    with Ok have "Get_loop h path i cur (take (Suc j) (p # ps)) = Ok w
        \<and> Get_step h (take (i + Suc j + 1) path) w ((p # ps) ! Suc j) = Err e"
      by simp
    with j show ?thesis by (metis Suc_less_eq length_Cons)
  qed
qed

lemma Get_step_hashable: "hashable p \<Longrightarrow> Get_step h pre cur p \<noteq> Panic"
  by (auto simp: Get_step_def split: val.splits option.splits)

lemma Get_loop_hashable:
  "\<forall>p \<in> set ps. hashable p \<Longrightarrow> Get_loop h path i cur ps \<noteq> Panic"
  by (induction ps arbitrary: i cur) (auto simp: Get_step_hashable split: outcome.splits)

subsection \<open>Assignments and the reads they do not touch\<close>

lemma float_eq_euclid: "float_eq a b \<Longrightarrow> float_eq a c \<Longrightarrow> float_eq b c"
  by (auto simp: float_eq_def split: if_splits)

lemma go_eq_euclid: "go_eq a b \<Longrightarrow> go_eq a c \<Longrightarrow> go_eq b c"
  by (cases a; cases b; cases c) (auto simp: go_eq_def dest: float_eq_euclid)

lemma float_eq_sym: "float_eq a b \<Longrightarrow> float_eq b a"
  by (auto simp: float_eq_def split: if_splits)

lemma go_eq_sym: "go_eq a b \<Longrightarrow> go_eq b a"
  by (cases a; cases b) (auto simp: go_eq_def dest: float_eq_sym)

lemma go_eq_self: "go_eq a b \<Longrightarrow> go_eq a a \<and> go_eq b b"
  using go_eq_euclid go_eq_sym by blast

lemma go_eq_refl_iff:
  "go_eq k k \<longleftrightarrow>
     (case k of VFloat64 w \<Rightarrow> \<not> isNaN w | VOther t c x \<Rightarrow> c = SelfEqual | _ \<Rightarrow> True)"
  by (cases k) (auto simp: go_eq_def float_eq_def)

lemma entry_lookup_key_equals_itself:
  "entry_lookup es k = Some v \<Longrightarrow> go_eq k k"
  by (induction es) (auto split: if_splits dest: go_eq_self)


lemma entry_lookup_assign_other:
  "\<not> go_eq k p \<Longrightarrow> entry_lookup (entry_assign es k v) p = entry_lookup es p"
  by (induction es) (auto dest: go_eq_euclid)

lemma read_loc_write_other:
  "\<not> touches w l \<Longrightarrow> read_loc (write_loc h w v) l = read_loc h l"
  by (cases w; cases l)
     (auto simp: assignSI_def assignII_def assignArr_def entry_lookup_assign_other)


lemma Get_step_read_loc:
  "Get_step h pre cur p =
     (case cur of
        VMapSI r \<Rightarrow>
          (case p of
             VString key \<Rightarrow>
               (case (case step_reads cur p of None \<Rightarrow> None | Some l \<Rightarrow> read_loc h l) of
                  None \<Rightarrow> Err (KeyNotFound (VString key) pre)
                | Some v \<Rightarrow> Ok v)
           | _ \<Rightarrow> Err (ExpectedKey p (type_of p) pre))
      | VMapII r \<Rightarrow>
          (if hashable p then
             (case (case step_reads cur p of None \<Rightarrow> None | Some l \<Rightarrow> read_loc h l) of
                None \<Rightarrow> Err (KeyNotFound p pre)
              | Some v \<Rightarrow> Ok v)
           else Panic)
      | VSliceI a off n \<Rightarrow>
          (case p of
             VInt index \<Rightarrow>
               (if index < 0 \<or> index \<ge> int n then Err (IndexOutOfRange index pre)
                else (case (case step_reads cur p of None \<Rightarrow> None | Some l \<Rightarrow> read_loc h l) of
                        None \<Rightarrow> Err (UnexpectedType pre)
                      | Some v \<Rightarrow> Ok v))
           | _ \<Rightarrow> Err (ExpectedIndex p (type_of p) pre))
      | _ \<Rightarrow> Err (UnexpectedType pre))"
  by (auto simp: Get_step_def step_reads_def lookupSI_def lookupII_def
      split: val.splits option.splits)

lemma Get_step_write_other:
  assumes "case step_reads cur p of None \<Rightarrow> True | Some l \<Rightarrow> \<not> touches w l"
  shows "Get_step (write_loc h w v) pre cur p = Get_step h pre cur p"
proof -
  have "(case step_reads cur p of None \<Rightarrow> None | Some l \<Rightarrow> read_loc (write_loc h w v) l)
      = (case step_reads cur p of None \<Rightarrow> None | Some l \<Rightarrow> read_loc h l)"
    using assms by (auto simp: read_loc_write_other split: option.splits)
  then show ?thesis
    by (simp only: Get_step_read_loc [of "write_loc h w v"] Get_step_read_loc [of h])
qed

lemma Get_no_data: "\<not> HasData d \<Longrightarrow> Get h' d q = Get h d q"
  by (cases q) (simp_all add: Get_def)

lemma reads_at_butlast:
  "j < length ps \<Longrightarrow> reads_at h d (ps @ [p]) j = reads_at h d ps j"
  by (simp add: reads_at_def nth_append split: outcome.splits)

lemma avoids_butlast: "avoids h d (ps @ [p]) w \<Longrightarrow> avoids h d ps w"
  unfolding avoids_def
proof (intro allI impI)
  fix j
  assume all: "\<forall>j < length (ps @ [p]). case reads_at h d (ps @ [p]) j of
                 None \<Rightarrow> True | Some l \<Rightarrow> \<not> touches w l"
    and j: "j < length ps"
  from j have "j < length (ps @ [p])" by simp
  with all have "case reads_at h d (ps @ [p]) j of None \<Rightarrow> True | Some l \<Rightarrow> \<not> touches w l"
    by blast
  then show "case reads_at h d ps j of None \<Rightarrow> True | Some l \<Rightarrow> \<not> touches w l"
    using j by (simp add: reads_at_butlast)
qed

lemma avoids_last:
  "avoids h d (ps @ [p]) w \<Longrightarrow> Get h d ps = Ok n \<Longrightarrow>
   (case step_reads (Data n) p of None \<Rightarrow> True | Some l \<Rightarrow> \<not> touches w l)"
  by (auto simp: avoids_def reads_at_def dest!: spec [of _ "length ps"])

lemma Get_write_other:
  "avoids h d q w \<Longrightarrow> Get (write_loc h w v) d q = Get h d q"
proof (cases "HasData d")
  case False
  then show ?thesis by (rule Get_no_data)
next
  case True
  assume "avoids h d q w"
  then show ?thesis
  proof (induction q rule: rev_induct)
    case Nil
    show ?case by (simp add: Get_def)
  next
    case (snoc p ps)
    have before: "Get (write_loc h w v) d ps = Get h d ps"
      using snoc.IH snoc.prems by (blast dest: avoids_butlast)
    show ?case
    proof (cases "Get h d ps")
      case (Ok n)
      have "Get_step (write_loc h w v) (ps @ [p]) (Data n) p = Get_step h (ps @ [p]) (Data n) p"
        using avoids_last [OF snoc.prems Ok] by (rule Get_step_write_other)
      then show ?thesis
        using before Ok True by (simp add: Get_snoc)
    qed (simp_all add: before True Get_snoc)
  qed
qed









text \<open>A key that does not equal itself: the assignment adds an entry that no lookup
  finds, so no path passes through it, and the written path fails with \<open>KeyNotFound\<close>.\<close>

lemma touches_EntryII_self:
  "touches (EntryII a k) l \<Longrightarrow> go_eq k k"
  by (cases l) (auto dest: go_eq_self)

lemma avoids_key_never_equal:
  "\<not> go_eq k k \<Longrightarrow> avoids h d q (EntryII a k)"
  by (auto simp: avoids_def split: option.splits dest: touches_EntryII_self)

lemma SetMapII_key_never_equal:
  assumes "GetMapII h d path = Ok (Some a)" and "hashable k" and "\<not> go_eq k k"
  shows "SetMapII h d v k path = (Ok (), assignII h a k v)
       \<and> Get (assignII h a k v) d (path @ [k]) = Err (KeyNotFound k (path @ [k]))"
proof -
  from assms(1) obtain n where n: "Get h d path = Ok n" and shape: "Data n = VMapII (Some a)"
    by (auto simp: GetMapII_def split: outcome.splits val.splits)
  have has: "HasData d"
    using n by (rule Get_Ok_HasData) (simp add: shape)
  have "Get (write_loc h (EntryII a k) v) d path = Get h d path"
    using assms(3) by (intro Get_write_other avoids_key_never_equal)
  then have parent: "Get (assignII h a k v) d path = Ok n"
    using n by simp
  have "entry_lookup (mapsII (assignII h a k v) a) k = None"
    using assms(3) entry_lookup_key_equals_itself by (cases "entry_lookup (mapsII (assignII h a k v) a) k") auto
  then have "Get_step (assignII h a k v) (path @ [k]) (Data n) k = Err (KeyNotFound k (path @ [k]))"
    using assms(2) shape by (simp add: Get_step_def lookupII_def)
  with parent has show ?thesis
    using assms(1,2) by (simp add: Get_snoc SetMapII_def)
qed

text \<open>A path prefix that never resolves to the container itself (the container is not
  below itself, as in a tree) reads no entry of that container.\<close>

lemma avoids_container_not_above:
  "(\<forall>j < length path. \<forall>n. Get h d (take j path) = Ok n \<longrightarrow> Data n \<noteq> VMapSI (Some a))
     \<Longrightarrow> avoids h d path (EntrySI a key)"
  "(\<forall>j < length path. \<forall>n. Get h d (take j path) = Ok n \<longrightarrow> Data n \<noteq> VMapII (Some a))
     \<Longrightarrow> avoids h d path (EntryII a k)"
  "(\<forall>j < length path. \<forall>n off len. Get h d (take j path) = Ok n \<longrightarrow> Data n \<noteq> VSliceI a off len)
     \<Longrightarrow> avoids h d path (Cell a c)"
  by (auto simp: avoids_def reads_at_def step_reads_def
      split: outcome.splits val.splits option.splits if_splits)

subsection \<open>One call and two calls\<close>

lemma Get_snoc_Get:
  "Get h d (path @ [s]) =
     (case Get h d path of
        Panic \<Rightarrow> Panic
      | Err e \<Rightarrow> Err e
      | Ok n \<Rightarrow>
          (case Get h n [s] of
             Panic \<Rightarrow> Panic
           | Err e \<Rightarrow> Err (relocate path s e)
           | Ok v \<Rightarrow> Ok v))"
proof (cases "HasData d")
  case False
  then show ?thesis
    by (cases path) (simp_all add: Get_def Data_def HasData_def)
next
  case True
  show ?thesis
  proof (cases "Get h d path")
    case (Ok n)
    show ?thesis
    proof (cases "Data n = VNil")
      case True
      have "path \<noteq> []"
        using Ok True \<open>HasData d\<close> by (auto simp: Get_def HasData_def Data_def)
      moreover have "Get h n [s] = Err EmptyData"
        using True by (simp add: Get_def HasData_def Data_def)
      ultimately show ?thesis
        using Ok True \<open>HasData d\<close> by (simp add: Get_snoc Get_step_nil)
    next
      case False
      then have "HasData n" by (simp add: HasData_def Data_def)
      then show ?thesis
        using Ok False \<open>HasData d\<close>
        by (simp add: Get_snoc Get_single Get_step_relocate split: outcome.splits)
    qed
  qed (simp_all add: Get_snoc True)
qed

section \<open>Traversal\<close>

text \<open>
  C1. Let iteration \<open>i\<close> of \<open>Get\<close> find a \<^verbatim>\<open>map[string]interface{}\<close> as the current
  value, that is, let the first \<open>i\<close> segments resolve to one. If segment \<open>i\<close> is not a
  string, \<open>Get\<close> fails with \<open>ExpectedKey\<close>, carrying the segment, its dynamic type and
  the first \<open>i + 1\<close> segments. If it is a string that the map does not hold, \<open>Get\<close> fails
  with \<open>KeyNotFound\<close>, carrying the key and the first \<open>i + 1\<close> segments. Otherwise the
  value under the key is the current value after the iteration, and the loop goes on
  from it with the remaining segments.
\<close>

theorem Get_at_MapSI:
  assumes "i < length path" and "Get h d (take i path) = Ok (Init (VMapSI r))"
  shows "((\<forall>key. path ! i \<noteq> VString key) \<longrightarrow>
            Get h d path = Err (ExpectedKey (path ! i) (type_of (path ! i)) (take (Suc i) path)))
       \<and> (\<forall>key. path ! i = VString key \<and> lookupSI h r key = None \<longrightarrow>
            Get h d path = Err (KeyNotFound (VString key) (take (Suc i) path)))
       \<and> (\<forall>key v. path ! i = VString key \<and> lookupSI h r key = Some v \<longrightarrow>
            Get h d (take (Suc i) path) = Ok (Init v)
            \<and> Get h d path = map_outcome Init (Get_loop h path (Suc i) v (drop (Suc i) path)))"
proof -
  have has: "HasData d"
    using assms(2) by (rule Get_Ok_HasData) (simp add: Data_def Init_def)
  note whole = Get_resume_step [OF assms(1,2) has]
  note upto = Get_take_Suc [OF assms(1,2) has]
  have "(\<forall>key. path ! i \<noteq> VString key) \<longrightarrow>
          Get h d path = Err (ExpectedKey (path ! i) (type_of (path ! i)) (take (Suc i) path))"
    unfolding whole by (cases "path ! i") (simp_all add: Get_step_def Data_def Init_def)
  moreover have "\<forall>key. path ! i = VString key \<and> lookupSI h r key = None \<longrightarrow>
          Get h d path = Err (KeyNotFound (VString key) (take (Suc i) path))"
    unfolding whole by (simp add: Get_step_def Data_def Init_def)
  moreover have "\<forall>key v. path ! i = VString key \<and> lookupSI h r key = Some v \<longrightarrow>
          Get h d (take (Suc i) path) = Ok (Init v)
          \<and> Get h d path = map_outcome Init (Get_loop h path (Suc i) v (drop (Suc i) path))"
    unfolding whole upto by (simp add: Get_step_def Data_def Init_def)
  ultimately show ?thesis by blast
qed

text \<open>On the README's document: an integer where \<^verbatim>\<open>root\<close> wants a key, a key the
  document does not hold, and the title.\<close>

theorem Get_at_MapSI_witness:
  "Get readme_heap readme_doc [VString ''root'', VInt 5]
     = Err (ExpectedKey (VInt 5) ''int'' [VString ''root'', VInt 5])
   \<and> Get readme_heap readme_doc [VString ''missing'']
     = Err (KeyNotFound (VString ''missing'') [VString ''missing''])
   \<and> Get readme_heap readme_doc [VString ''root'', VString ''title'']
     = Ok (Init (VString ''example json''))"
proof -
  have top: "Get readme_heap readme_doc (take 0 p) = Ok (Init (VMapSI (Some 0)))" for p
    by (simp add: model_defs sample_defs)
  have root: "Get readme_heap readme_doc (take 1 [VString ''root'', s]) = Ok (Init (VMapSI (Some 1)))"
    for s
    by (simp add: model_defs sample_defs)
  have "Get readme_heap readme_doc [VString ''root'', VInt 5]
     = Err (ExpectedKey (VInt 5) ''int'' [VString ''root'', VInt 5])"
    using Get_at_MapSI [OF _ root, of "VInt 5"] by simp
  moreover have "Get readme_heap readme_doc [VString ''missing'']
     = Err (KeyNotFound (VString ''missing'') [VString ''missing''])"
    using Get_at_MapSI [OF _ top, of "[VString ''missing'']"]
    by (simp add: lookupSI_def readme_heap_def)
  moreover have "Get readme_heap readme_doc [VString ''root'', VString ''title'']
     = Ok (Init (VString ''example json''))"
    using Get_at_MapSI [OF _ root, of "VString ''title''"]
    by (simp add: lookupSI_def readme_heap_def)
  ultimately show ?thesis by simp
qed

text \<open>
  C2. Let iteration \<open>i\<close> of \<open>Get\<close> find a \<^verbatim>\<open>[]interface{}\<close> as the current value. If
  segment \<open>i\<close> is not an \<^verbatim>\<open>int\<close>, \<open>Get\<close> fails with \<open>ExpectedIndex\<close>. If it is
  negative, or at least the length of the slice, \<open>Get\<close> fails with \<open>IndexOutOfRange\<close>.
  Otherwise the element at that index is the current value after the iteration, and the
  loop goes on from it.
\<close>

theorem Get_at_SliceI:
  assumes "i < length path" and "Get h d (take i path) = Ok (Init (VSliceI a off n))"
  shows "((\<forall>index. path ! i \<noteq> VInt index) \<longrightarrow>
            Get h d path = Err (ExpectedIndex (path ! i) (type_of (path ! i)) (take (Suc i) path)))
       \<and> (\<forall>index. path ! i = VInt index \<and> (index < 0 \<or> index \<ge> int n) \<longrightarrow>
            Get h d path = Err (IndexOutOfRange index (take (Suc i) path)))
       \<and> (\<forall>index. path ! i = VInt index \<and> 0 \<le> index \<and> index < int n \<longrightarrow>
            Get h d (take (Suc i) path) = Ok (Init (arrays h a (off + nat index)))
            \<and> Get h d path =
                map_outcome Init
                  (Get_loop h path (Suc i) (arrays h a (off + nat index)) (drop (Suc i) path)))"
proof -
  have has: "HasData d"
    using assms(2) by (rule Get_Ok_HasData) (simp add: Data_def Init_def)
  note whole = Get_resume_step [OF assms(1,2) has]
  note upto = Get_take_Suc [OF assms(1,2) has]
  have "(\<forall>index. path ! i \<noteq> VInt index) \<longrightarrow>
          Get h d path = Err (ExpectedIndex (path ! i) (type_of (path ! i)) (take (Suc i) path))"
    unfolding whole by (cases "path ! i") (simp_all add: Get_step_def Data_def Init_def)
  moreover have "\<forall>index. path ! i = VInt index \<and> (index < 0 \<or> index \<ge> int n) \<longrightarrow>
          Get h d path = Err (IndexOutOfRange index (take (Suc i) path))"
    unfolding whole by (auto simp add: Get_step_def Data_def Init_def)
  moreover have "\<forall>index. path ! i = VInt index \<and> 0 \<le> index \<and> index < int n \<longrightarrow>
          Get h d (take (Suc i) path) = Ok (Init (arrays h a (off + nat index)))
          \<and> Get h d path =
              map_outcome Init
                (Get_loop h path (Suc i) (arrays h a (off + nat index)) (drop (Suc i) path))"
    unfolding whole upto by (auto simp add: Get_step_def Data_def Init_def)
  ultimately show ?thesis by blast
qed

theorem Get_at_SliceI_witness:
  "Get readme_heap readme_doc [VString ''root'', VString ''contents'', VString ''x'']
     = Err (ExpectedIndex (VString ''x'') ''string''
              [VString ''root'', VString ''contents'', VString ''x''])
   \<and> Get readme_heap readme_doc [VString ''root'', VString ''contents'', VInt 5]
     = Err (IndexOutOfRange 5 [VString ''root'', VString ''contents'', VInt 5])
   \<and> Get readme_heap readme_doc [VString ''root'', VString ''contents'', VInt (- 1)]
     = Err (IndexOutOfRange (- 1) [VString ''root'', VString ''contents'', VInt (- 1)])
   \<and> Get readme_heap readme_doc [VString ''root'', VString ''contents'', VInt 1]
     = Ok (Init (VString ''c2''))"
proof -
  have contents: "Get readme_heap readme_doc (take 2 [VString ''root'', VString ''contents'', s])
      = Ok (Init (VSliceI 0 0 3))" for s
    by (simp add: model_defs sample_defs)
  have "Get readme_heap readme_doc [VString ''root'', VString ''contents'', VString ''x'']
     = Err (ExpectedIndex (VString ''x'') ''string''
              [VString ''root'', VString ''contents'', VString ''x''])"
    using Get_at_SliceI [OF _ contents, of "VString ''x''"] by simp
  moreover have "Get readme_heap readme_doc [VString ''root'', VString ''contents'', VInt 5]
     = Err (IndexOutOfRange 5 [VString ''root'', VString ''contents'', VInt 5])"
    using Get_at_SliceI [OF _ contents, of "VInt 5"] by simp
  moreover have "Get readme_heap readme_doc [VString ''root'', VString ''contents'', VInt (- 1)]
     = Err (IndexOutOfRange (- 1) [VString ''root'', VString ''contents'', VInt (- 1)])"
    using Get_at_SliceI [OF _ contents, of "VInt (- 1)"] by simp
  moreover have "Get readme_heap readme_doc [VString ''root'', VString ''contents'', VInt 1]
     = Ok (Init (VString ''c2''))"
    using Get_at_SliceI [OF _ contents, of "VInt 1"] by (simp add: readme_heap_def)
  ultimately show ?thesis by simp
qed

text \<open>
  C3, as amended. Resolving \<open>path\<close> and then the single segment \<open>s\<close> from the node
  returned has the same kind of outcome (a node, an error, a panic) as resolving
  \<open>path @ [s]\<close> in one call, and the same node when there is one. An error of the first
  \<open>k\<close> segments is the same in both. An error of the last segment is not: the single
  call reports it with the path counted from the root (\<open>path @ [s]\<close>, where the second
  of the two calls carries \<open>[s]\<close>), and a nil value at \<open>path\<close>, for a \<open>path\<close> that is not
  empty, is an \<open>UnexpectedType\<close> in the single call and an \<open>EmptyData\<close> in the second of
  the two.
\<close>

theorem Get_one_more_segment:
  "Get h d (path @ [s]) =
     (case Get h d path of
        Panic \<Rightarrow> Panic
      | Err e \<Rightarrow> Err e
      | Ok n \<Rightarrow>
          (case Get h n [s] of
             Panic \<Rightarrow> Panic
           | Err e \<Rightarrow> Err (relocate path s e)
           | Ok v \<Rightarrow> Ok v))
   \<and> ((Get_then h d path s = Ok m) = (Get h d (path @ [s]) = Ok m))
   \<and> ((Get_then h d path s = Panic) = (Get h d (path @ [s]) = Panic))
   \<and> ((\<exists>e. Get_then h d path s = Err e) = (\<exists>e. Get h d (path @ [s]) = Err e))"
  by (simp add: Get_snoc_Get Get_then_def split: outcome.splits)

text \<open>The claim as first stated asks for the same error. On the README's document,
  looking up \<^verbatim>\<open>missing\<close> under \<^verbatim>\<open>root\<close> gives two different errors.\<close>

theorem Get_then_counterexample:
  "Get_then readme_heap readme_doc [VString ''root''] (VString ''missing'')
     = Err (KeyNotFound (VString ''missing'') [VString ''missing''])
   \<and> Get readme_heap readme_doc [VString ''root'', VString ''missing'']
     = Err (KeyNotFound (VString ''missing'') [VString ''root'', VString ''missing''])
   \<and> Get_then readme_heap readme_doc [VString ''root''] (VString ''missing'')
     \<noteq> Get readme_heap readme_doc [VString ''root'', VString ''missing'']"
  by (simp add: Get_then_def model_defs sample_defs)

section \<open>Errors of Get\<close>

text \<open>
  C6, as amended. Every error \<open>Get\<close> returns, other than \<open>EmptyData\<close>, carries the first
  \<open>i + 1\<close> segments of the path, where \<open>i\<close> is the iteration that failed: the first \<open>i\<close>
  segments resolve, and the iteration on segment \<open>i\<close> returns this error.
\<close>

theorem Get_error_prefix:
  assumes "Get h d path = Err e" and "e \<noteq> EmptyData"
  shows "\<exists>i < length path. error_path e = Some (take (Suc i) path)
           \<and> (\<exists>n. Get h d (take i path) = Ok n
                \<and> Get_step h (take (Suc i) path) (Data n) (path ! i) = Err e)"
proof -
  have loop: "Get_loop h path 0 (Data d) path = Err e"
    using assms by (auto simp: Get_def split: if_splits outcome.splits)
  have has: "HasData d \<or> path = []"
    using assms by (auto simp: Get_def split: if_splits)
  from Get_loop_Err_first [OF loop] obtain j v where j: "j < length path"
    and upto: "Get_loop h path 0 (Data d) (take j path) = Ok v"
    and step: "Get_step h (take (Suc j) path) v (path ! j) = Err e"
    by auto
  from j has have hd: "HasData d" by auto
  have "Get_loop h (take j path) 0 (Data d) (take j path) = Ok v"
    using upto Get_loop_path_irrelevant [of 0 "take j path" "take j path" path h "Data d"]
    by simp
  then have "Get h d (take j path) = Ok (Init v)"
    using hd by (simp add: Get_def Init_def)
  moreover have "error_path e = Some (take (Suc j) path)"
    using step by (rule Get_step_Err_path)
  ultimately show ?thesis
    using j step by (auto simp: Data_def Init_def)
qed

theorem Get_error_prefix_witness:
  "Get readme_heap readme_doc [VString ''root'', VInt 5, VString ''title'']
     = Err (ExpectedKey (VInt 5) ''int'' [VString ''root'', VInt 5])
   \<and> (\<exists>i < 3. error_path (ExpectedKey (VInt 5) ''int'' [VString ''root'', VInt 5])
          = Some (take (Suc i) [VString ''root'', VInt 5, VString ''title'']))"
proof -
  have fails: "Get readme_heap readme_doc [VString ''root'', VInt 5, VString ''title'']
     = Err (ExpectedKey (VInt 5) ''int'' [VString ''root'', VInt 5])"
    by (simp add: model_defs sample_defs)
  have other: "ExpectedKey (VInt 5) ''int'' [VString ''root'', VInt 5] \<noteq> EmptyData"
    by simp
  from Get_error_prefix [OF fails other] obtain i
    where "i < length [VString ''root'', VInt 5, VString ''title'']"
      and "error_path (ExpectedKey (VInt 5) ''int'' [VString ''root'', VInt 5])
             = Some (take (Suc i) [VString ''root'', VInt 5, VString ''title''])"
    by blast
  then have "\<exists>i < 3. error_path (ExpectedKey (VInt 5) ''int'' [VString ''root'', VInt 5])
          = Some (take (Suc i) [VString ''root'', VInt 5, VString ''title''])"
    by (intro exI [of _ i]) simp
  with fails show ?thesis by blast
qed

text \<open>\<open>EmptyData\<close> carries no path at all.\<close>

theorem Get_error_prefix_counterexample:
  "Get readme_heap (Init VNil) [VString ''root''] = Err EmptyData
   \<and> error_path EmptyData \<noteq> Some (take 1 [VString ''root''])"
  by (simp add: model_defs)

text \<open>
  C7. On a node whose wrapped value is nil, \<open>Get\<close> with a path that is not empty fails
  with \<open>EmptyData\<close>, whatever the store and the segments are: no iteration is run.
\<close>

theorem Get_nil_nonempty:
  "\<not> HasData d \<Longrightarrow> path \<noteq> [] \<Longrightarrow> Get h d path = Err EmptyData"
  by (simp add: Get_def)

theorem Get_nil_nonempty_witness:
  "\<not> HasData (Init VNil) \<and> [VSliceI 0 0 3] \<noteq> []
   \<and> Get readme_heap (Init VNil) [VSliceI 0 0 3] = Err EmptyData"
proof -
  have nil: "\<not> HasData (Init VNil)"
    by (simp add: HasData_def Init_def)
  have nonempty: "[VSliceI 0 0 3] \<noteq> []"
    by simp
  from Get_nil_nonempty [OF nil nonempty, of readme_heap] nil show ?thesis by simp
qed

text \<open>
  C8. On a node whose wrapped value is not nil, \<open>Get\<close> with the empty path succeeds, and
  the node it returns wraps the value that \<open>Data\<close> returns.
\<close>

theorem Get_empty_path:
  "HasData d \<Longrightarrow> \<exists>n. Get h d [] = Ok n \<and> Data n = Data d"
  by (simp add: Get_def Data_def)

theorem Get_empty_path_witness:
  "HasData readme_doc
   \<and> (\<exists>n. Get readme_heap readme_doc [] = Ok n \<and> Data n = Data readme_doc)"
proof -
  have nonnil: "HasData readme_doc"
    by (simp add: HasData_def readme_doc_def Init_def)
  from Get_empty_path [OF nonnil, of readme_heap] nonnil show ?thesis by simp
qed

text \<open>
  C9. On a node whose wrapped value is nil, \<open>Get\<close> with the empty path still succeeds
  and returns a node wrapping nil, and \<open>Exists\<close> with the empty path is true, although
  \<open>HasData\<close> is false on that node.
\<close>

theorem Get_nil_empty_path:
  "Get h (Init VNil) [] = Ok (Init VNil)
   \<and> Data (Init VNil) = VNil
   \<and> Exists h (Init VNil) [] = Ok True
   \<and> HasData (Init VNil) = False"
  by (simp add: Get_def Exists_def HasData_def Data_def Init_def)

text \<open>
  C10. \<open>Get\<close> is a total function: it ends on every node, store and path. When every
  segment of the path can be hashed, it returns exactly one of a node and an error, and
  does not panic. The condition is needed: on a \<^verbatim>\<open>map[interface{}]interface{}\<close>, nil or
  not, a segment that cannot be hashed makes \<open>Get\<close> panic, for the segment is the key of
  the lookup as it stands. (The receiver is a node, a \<^verbatim>\<open>*DMap\<close> that is not nil.)
\<close>

theorem Get_never_panics:
  "((\<forall>p \<in> set path. hashable p) \<longrightarrow>
      (\<exists>n. Get h d path = Ok n) \<noteq> (\<exists>e. Get h d path = Err e))
   \<and> (\<not> hashable s \<longrightarrow> Get h (Init (VMapII r)) [s] = Panic)"
proof -
  have "(\<exists>n. Get h d path = Ok n) \<noteq> (\<exists>e. Get h d path = Err e)"
    if "\<forall>p \<in> set path. hashable p"
  proof -
    have "Get_loop h path 0 (Data d) path \<noteq> Panic"
      using that by (rule Get_loop_hashable)
    then have "Get h d path \<noteq> Panic"
      by (auto simp: Get_def split: outcome.splits)
    then show ?thesis by (cases "Get h d path") simp_all
  qed
  moreover have "Get h (Init (VMapII r)) [s] = Panic" if "\<not> hashable s"
    using that by (simp add: Get_def Get_step_def HasData_def Data_def Init_def)
  ultimately show ?thesis by blast
qed

theorem Get_never_panics_witness:
  "(\<exists>n. Get readme_heap readme_doc [VString ''root'', VString ''contents'', VInt 1] = Ok n)
   \<and> Get readme_heap (Init (VMapII None)) [VSliceI 0 0 3] = Panic"
proof -
  have "\<forall>p \<in> set [VString ''root'', VString ''contents'', VInt 1]. hashable p"
    by simp
  moreover have "\<not> hashable (VSliceI 0 0 3)"
    by simp
  moreover have "\<nexists>e. Get readme_heap readme_doc [VString ''root'', VString ''contents'', VInt 1] = Err e"
    by (simp add: model_defs sample_defs)
  ultimately show ?thesis
    using Get_never_panics [of "[VString ''root'', VString ''contents'', VInt 1]"
        readme_heap readme_doc "VSliceI 0 0 3" None]
    by blast
qed

section \<open>Setters\<close>




text \<open>Why the other conditions are there: a path through a cycle reads the entry that
  is written, a NaN key (a float64, or a float32 as one of the other types) is stored
  and never found, and a key that cannot be hashed makes the assignment panic.\<close>

lemma SetMapSI_through_cycle:
  "GetMapSI loop_heap loop_doc [VString ''self''] = Ok (Some 0)
   \<and> SetMapSI loop_heap loop_doc (VInt 5) ''self'' [VString ''self'']
       = (Ok (), assignSI loop_heap 0 ''self'' (VInt 5))
   \<and> Get (assignSI loop_heap 0 ''self'' (VInt 5)) loop_doc [VString ''self'', VString ''self'']
       = Err (UnexpectedType [VString ''self'', VString ''self''])
   \<and> \<not> avoids loop_heap loop_doc [VString ''self''] (EntrySI 0 ''self'')"
  by (simp add: frame_defs model_defs sample_defs)

lemma SetMapII_NaN_key:
  "\<not> go_eq NaN NaN
   \<and> SetMapII yaml_heap yaml_doc (VInt 5) NaN [] = (Ok (), assignII yaml_heap 0 NaN (VInt 5))
   \<and> Get (assignII yaml_heap 0 NaN (VInt 5)) yaml_doc [NaN] = Err (KeyNotFound NaN [NaN])"
  by (simp add: model_defs sample_defs NaN_def float_eq_def isNaN_def)

lemma SetMapII_float32_NaN_key:
  "hashable NaN32 \<and> \<not> go_eq NaN32 NaN32
   \<and> SetMapII yaml_heap yaml_doc (VInt 5) NaN32 [] = (Ok (), assignII yaml_heap 0 NaN32 (VInt 5))
   \<and> Get (assignII yaml_heap 0 NaN32 (VInt 5)) yaml_doc [NaN32] = Err (KeyNotFound NaN32 [NaN32])"
  by (simp add: model_defs sample_defs NaN32_def)

lemma SetMapII_unhashable_key:
  "GetMapII yaml_heap yaml_doc [] = Ok (Some 0)
   \<and> SetMapII yaml_heap yaml_doc (VInt 5) (VSliceI 0 0 2) [] = (Panic, yaml_heap)"
  by (simp add: model_defs sample_defs)

text \<open>
  C5. When the parent resolution of a setter returns an error, the setter returns that
  very error and the store is the one before the call. The parent resolution is the
  typed getter of the setter's shape; it returns the error of \<open>Get\<close> when the path does
  not resolve, and \<open>NotMapSI\<close>, \<open>NotMapII\<close> or \<open>NotSliceI\<close>, carrying the path, when the
  path resolves to a value of another shape.
\<close>

theorem setters_propagate_parent_error:
  "(GetMapSI h d path = Err e \<longrightarrow> SetMapSI h d v key path = (Err e, h))
   \<and> (GetMapII h d path = Err e \<longrightarrow> SetMapII h d v k path = (Err e, h))
   \<and> (GetSliceI h d path = Err e \<longrightarrow> SetSliceI h d v index path = (Err e, h))
   \<and> (Get h d path = Err e \<longrightarrow>
        GetMapSI h d path = Err e \<and> GetMapII h d path = Err e \<and> GetSliceI h d path = Err e)
   \<and> (Get h d path = Ok n \<and> (\<forall>r. Data n \<noteq> VMapSI r) \<longrightarrow>
        GetMapSI h d path = Err (NotMapSI path))
   \<and> (Get h d path = Ok n \<and> (\<forall>r. Data n \<noteq> VMapII r) \<longrightarrow>
        GetMapII h d path = Err (NotMapII path))
   \<and> (Get h d path = Ok n \<and> (\<forall>a off len. Data n \<noteq> VSliceI a off len) \<longrightarrow>
        GetSliceI h d path = Err (NotSliceI path))"
  by (auto simp: SetMapSI_def SetMapII_def SetSliceI_def GetMapSI_def GetMapII_def
      GetSliceI_def split: val.splits)

theorem setters_propagate_parent_error_witness:
  "SetMapSI readme_heap readme_doc (VInt 1) ''k'' [VString ''missing'']
     = (Err (KeyNotFound (VString ''missing'') [VString ''missing'']), readme_heap)
   \<and> SetMapII readme_heap readme_doc (VInt 1) (VInt 2) []
     = (Err (NotMapII []), readme_heap)
   \<and> SetSliceI readme_heap readme_doc (VInt 1) 0 [VString ''root'']
     = (Err (NotSliceI [VString ''root'']), readme_heap)
   \<and> GetSliceI readme_heap readme_doc [VString ''root'', VInt 5]
     = Err (ExpectedKey (VInt 5) ''int'' [VString ''root'', VInt 5])
   \<and> GetMapSI readme_heap readme_doc [VString ''root'', VString ''title'']
     = Err (NotMapSI [VString ''root'', VString ''title''])"
proof -
  note carry = setters_propagate_parent_error [where h = readme_heap and d = readme_doc]
  have "GetMapSI readme_heap readme_doc [VString ''missing'']
      = Err (KeyNotFound (VString ''missing'') [VString ''missing''])"
    by (simp add: model_defs sample_defs)
  from carry [THEN conjunct1, THEN mp, OF this]
  have a: "SetMapSI readme_heap readme_doc (VInt 1) ''k'' [VString ''missing'']
     = (Err (KeyNotFound (VString ''missing'') [VString ''missing'']), readme_heap)" .
  have root: "Get readme_heap readme_doc [] = Ok (Init (VMapSI (Some 0)))
      \<and> (\<forall>r. Data (Init (VMapSI (Some 0))) \<noteq> VMapII r)"
    by (simp add: model_defs sample_defs)
  from carry [THEN conjunct2, THEN conjunct2, THEN conjunct2, THEN conjunct2, THEN conjunct2,
      THEN conjunct1, THEN mp, OF root]
  have "GetMapII readme_heap readme_doc [] = Err (NotMapII [])" .
  from carry [THEN conjunct2, THEN conjunct1, THEN mp, OF this]
  have b: "SetMapII readme_heap readme_doc (VInt 1) (VInt 2) [] = (Err (NotMapII []), readme_heap)" .
  have under: "Get readme_heap readme_doc [VString ''root''] = Ok (Init (VMapSI (Some 1)))
      \<and> (\<forall>a off len. Data (Init (VMapSI (Some 1))) \<noteq> VSliceI a off len)"
    by (simp add: model_defs sample_defs)
  from carry [THEN conjunct2, THEN conjunct2, THEN conjunct2, THEN conjunct2, THEN conjunct2,
      THEN conjunct2, THEN mp, OF under]
  have "GetSliceI readme_heap readme_doc [VString ''root''] = Err (NotSliceI [VString ''root''])" .
  from carry [THEN conjunct2, THEN conjunct2, THEN conjunct1, THEN mp, OF this]
  have c: "SetSliceI readme_heap readme_doc (VInt 1) 0 [VString ''root'']
     = (Err (NotSliceI [VString ''root'']), readme_heap)" .
  have "Get readme_heap readme_doc [VString ''root'', VInt 5]
      = Err (ExpectedKey (VInt 5) ''int'' [VString ''root'', VInt 5])"
    by (simp add: model_defs sample_defs)
  from carry [THEN conjunct2, THEN conjunct2, THEN conjunct2, THEN conjunct1, THEN mp, OF this]
  have e: "GetSliceI readme_heap readme_doc [VString ''root'', VInt 5]
     = Err (ExpectedKey (VInt 5) ''int'' [VString ''root'', VInt 5])"
    by simp
  have title: "Get readme_heap readme_doc [VString ''root'', VString ''title'']
        = Ok (Init (VString ''example json''))
      \<and> (\<forall>r. Data (Init (VString ''example json'')) \<noteq> VMapSI r)"
    by (simp add: model_defs sample_defs)
  from carry [THEN conjunct2, THEN conjunct2, THEN conjunct2, THEN conjunct2, THEN conjunct1,
      THEN mp, OF title]
  have f: "GetMapSI readme_heap readme_doc [VString ''root'', VString ''title'']
     = Err (NotMapSI [VString ''root'', VString ''title''])" .
  from a b c e f show ?thesis by blast
qed

end
